theory Spec2Isabelle
  imports Complex_Main "HOL-Library.Log_Nat"
begin

section \<open>Box-spread and calendar-spread pricers of arbitrage\_logic.py\<close>

text \<open>
  The two functions of \<^verbatim>\<open>arbitrage_logic.py\<close> take quote legs as Python dictionaries
  and return a float. The embedding keeps the shape of the source:
  \<^item> a Python float is an IEEE binary64 value: a finite number, an infinity or nan, and
    every arithmetic operation rounds its exact result to the nearest double, ties to
    even, with overflow to infinity;
  \<^item> the strikes are Python ints (unbounded), the spot rate and the fee rate are floats,
    as the signatures annotate them;
  \<^item> a value stored in a leg dictionary is \<open>None\<close>, an int, a float or a string;
  \<^item> a leg is a dictionary, a map from key strings to values;
  \<^item> \<open>leg_data[i]\<close>, \<open>leg['ask_price']\<close>, \<open>value * btc_usd_price\<close> and the conversion
    of an int to a float can raise, so each is a function into \<open>py_error + _\<close> with
    \<open>Inl\<close> the exception.
\<close>

subsection \<open>Python floats\<close>

text \<open>
  A finite double is represented by the real number it denotes. The two zeros of
  binary64 are one value \<open>Fin 0\<close>: Python's \<open>==\<close> does not tell them apart, and
  addition, subtraction and multiplication give results that differ at most in the
  sign of a zero.
\<close>

datatype double = Fin real | PosInf | NegInf | NaN

text \<open>The integer nearest to \<open>r\<close>, the even one of the two when \<open>r\<close> lies halfway.\<close>

definition round_half_even :: "real \<Rightarrow> int" where
  "round_half_even r =
     (let n = \<lfloor>r\<rfloor>; d = r - of_int n
      in if d < 1 / 2 then n else if 1 / 2 < d then n + 1 else if even n then n else n + 1)"

text \<open>The binary exponent of \<open>x \<noteq> 0\<close>: the \<open>e\<close> with \<open>2 powi e \<le> \<bar>x\<bar>\<close> and \<open>\<bar>x\<bar> < 2 powi (e + 1)\<close>.\<close>

definition exponent_of :: "real \<Rightarrow> int" where
  "exponent_of x =
     (if 1 \<le> \<bar>x\<bar> then bitlen \<lfloor>\<bar>x\<bar>\<rfloor> - 1 else - bitlen (\<lceil>1 / \<bar>x\<bar>\<rceil> - 1))"

text \<open>
  The exponent of the unit in the last place at \<open>x\<close>: 53 significant bits, and the
  spacing \<open>2 powi - 1074\<close> of the subnormal numbers at the bottom of the range.
\<close>

definition ulp_exponent :: "real \<Rightarrow> int" where
  "ulp_exponent x = max (exponent_of x - 52) (- 1074)"

definition round_unbounded :: "real \<Rightarrow> real" where
  "round_unbounded x =
     (if x = 0 then 0
      else of_int (round_half_even (x / 2 powi ulp_exponent x)) * 2 powi ulp_exponent x)"

text \<open>
  Rounding of an exact result to a double. The largest finite double is
  \<open>2 ^ 1024 - 2 ^ 971\<close>; a result that rounds to \<open>2 ^ 1024\<close> or beyond overflows.
  A Python float literal denotes \<open>rnd\<close> of its decimal value.
\<close>

definition rnd :: "real \<Rightarrow> double" where
  "rnd x =
     (let y = round_unbounded x
      in if 2 ^ 1024 \<le> y then PosInf else if y \<le> - (2 ^ 1024) then NegInf else Fin y)"

fun fneg :: "double \<Rightarrow> double" where
  "fneg (Fin x) = Fin (- x)"
| "fneg PosInf = NegInf"
| "fneg NegInf = PosInf"
| "fneg NaN = NaN"

text \<open>\<open>x + y\<close> on floats.\<close>

fun fadd :: "double \<Rightarrow> double \<Rightarrow> double" where
  "fadd (Fin x) (Fin y) = rnd (x + y)"
| "fadd (Fin x) PosInf = PosInf"
| "fadd (Fin x) NegInf = NegInf"
| "fadd (Fin x) NaN = NaN"
| "fadd PosInf (Fin y) = PosInf"
| "fadd PosInf PosInf = PosInf"
| "fadd PosInf NegInf = NaN"
| "fadd PosInf NaN = NaN"
| "fadd NegInf (Fin y) = NegInf"
| "fadd NegInf PosInf = NaN"
| "fadd NegInf NegInf = NegInf"
| "fadd NegInf NaN = NaN"
| "fadd NaN y = NaN"

text \<open>\<open>x - y\<close> on floats.\<close>

definition fsub :: "double \<Rightarrow> double \<Rightarrow> double" where
  "fsub x y = fadd x (fneg y)"

text \<open>\<open>x * y\<close> on floats.\<close>

fun fmul :: "double \<Rightarrow> double \<Rightarrow> double" where
  "fmul (Fin x) (Fin y) = rnd (x * y)"
| "fmul (Fin x) PosInf = (if x = 0 then NaN else if 0 < x then PosInf else NegInf)"
| "fmul (Fin x) NegInf = (if x = 0 then NaN else if 0 < x then NegInf else PosInf)"
| "fmul (Fin x) NaN = NaN"
| "fmul PosInf (Fin y) = (if y = 0 then NaN else if 0 < y then PosInf else NegInf)"
| "fmul PosInf PosInf = PosInf"
| "fmul PosInf NegInf = NegInf"
| "fmul PosInf NaN = NaN"
| "fmul NegInf (Fin y) = (if y = 0 then NaN else if 0 < y then NegInf else PosInf)"
| "fmul NegInf PosInf = NegInf"
| "fmul NegInf NegInf = PosInf"
| "fmul NegInf NaN = NaN"
| "fmul NaN y = NaN"

text \<open>\<open>x < y\<close> and \<open>x <= y\<close> on floats: false when either side is nan.\<close>

fun dlt :: "double \<Rightarrow> double \<Rightarrow> bool" where
  "dlt (Fin x) (Fin y) \<longleftrightarrow> x < y"
| "dlt (Fin x) PosInf \<longleftrightarrow> True"
| "dlt (Fin x) NegInf \<longleftrightarrow> False"
| "dlt (Fin x) NaN \<longleftrightarrow> False"
| "dlt PosInf y \<longleftrightarrow> False"
| "dlt NegInf (Fin y) \<longleftrightarrow> True"
| "dlt NegInf PosInf \<longleftrightarrow> True"
| "dlt NegInf NegInf \<longleftrightarrow> False"
| "dlt NegInf NaN \<longleftrightarrow> False"
| "dlt NaN y \<longleftrightarrow> False"

fun dle :: "double \<Rightarrow> double \<Rightarrow> bool" where
  "dle (Fin x) (Fin y) \<longleftrightarrow> x \<le> y"
| "dle (Fin x) PosInf \<longleftrightarrow> True"
| "dle (Fin x) NegInf \<longleftrightarrow> False"
| "dle (Fin x) NaN \<longleftrightarrow> False"
| "dle PosInf (Fin y) \<longleftrightarrow> False"
| "dle PosInf PosInf \<longleftrightarrow> True"
| "dle PosInf NegInf \<longleftrightarrow> False"
| "dle PosInf NaN \<longleftrightarrow> False"
| "dle NegInf (Fin y) \<longleftrightarrow> True"
| "dle NegInf PosInf \<longleftrightarrow> True"
| "dle NegInf NegInf \<longleftrightarrow> True"
| "dle NegInf NaN \<longleftrightarrow> False"
| "dle NaN y \<longleftrightarrow> False"

subsection \<open>Python values, exceptions and containers\<close>

datatype pyval = PNone | PInt int | PFloat double | PStr string

type_synonym pydict = "string \<rightharpoonup> pyval"

datatype py_error = IndexError | KeyError | TypeError | OverflowError

text \<open>Sequencing of statements that can raise: the first exception ends the call.\<close>

definition bind_err :: "py_error + 'a \<Rightarrow> ('a \<Rightarrow> py_error + 'b) \<Rightarrow> py_error + 'b" where
  "bind_err m f = (case m of Inl e \<Rightarrow> Inl e | Inr v \<Rightarrow> f v)"

text \<open>
  The conversion of an int that meets a float in an arithmetic operation: correctly
  rounded, \<open>OverflowError\<close> when the int is too large for a double.
\<close>

definition int_to_double :: "int \<Rightarrow> py_error + double" where
  "int_to_double n =
     (case rnd (of_int n) of Fin x \<Rightarrow> Inr (Fin x) | PosInf \<Rightarrow> Inl OverflowError
      | NegInf \<Rightarrow> Inl OverflowError | NaN \<Rightarrow> Inl OverflowError)"

text \<open>
  The left operand of \<open>v * btc_usd_price\<close> as a float: a float is itself, an int is
  converted, a string or \<open>None\<close> has no product with a float and raises \<open>TypeError\<close>.
\<close>

fun as_double :: "pyval \<Rightarrow> py_error + double" where
  "as_double (PFloat x) = Inr x"
| "as_double (PInt n) = int_to_double n"
| "as_double (PStr s) = Inl TypeError"
| "as_double PNone = Inl TypeError"

text \<open>\<open>v * r\<close> with a float \<open>r\<close> on the right.\<close>

definition py_mul :: "pyval \<Rightarrow> double \<Rightarrow> py_error + double" where
  "py_mul v r = bind_err (as_double v) (\<lambda>x. Inr (fmul x r))"

text \<open>\<open>n - x\<close> with an int on the left and a float on the right.\<close>

definition int_minus_float :: "int \<Rightarrow> double \<Rightarrow> py_error + double" where
  "int_minus_float n x = bind_err (int_to_double n) (\<lambda>y. Inr (fsub y x))"

text \<open>\<open>d.get(k)\<close>: the stored value, \<open>None\<close> when the key is missing.\<close>

definition dict_get :: "pydict \<Rightarrow> string \<Rightarrow> pyval" where
  "dict_get d k = (case d k of None \<Rightarrow> PNone | Some v \<Rightarrow> v)"

text \<open>\<open>d[k]\<close>: raises \<open>KeyError\<close> when the key is missing.\<close>

definition dict_item :: "pydict \<Rightarrow> string \<Rightarrow> py_error + pyval" where
  "dict_item d k = (case d k of None \<Rightarrow> Inl KeyError | Some v \<Rightarrow> Inr v)"

text \<open>\<open>xs[i]\<close> for a literal index \<open>i \<ge> 0\<close>: raises \<open>IndexError\<close> out of range.\<close>

definition list_item :: "'a list \<Rightarrow> nat \<Rightarrow> py_error + 'a" where
  "list_item xs i = (if i < length xs then Inr (xs ! i) else Inl IndexError)"

subsection \<open>The two pricers\<close>

text \<open>\<open>leg_data[i][key] * btc_usd_price\<close>, evaluated left to right.\<close>

definition leg_price_usd :: "pydict list \<Rightarrow> nat \<Rightarrow> string \<Rightarrow> double \<Rightarrow> py_error + double" where
  "leg_price_usd leg_data i key btc_usd_price =
     bind_err (list_item leg_data i) (\<lambda>leg.
     bind_err (dict_item leg key) (\<lambda>v.
     py_mul v btc_usd_price))"

text \<open>The test of the guard: \<open>leg.get('ask_price') is None or leg.get('bid_price') is None\<close>.\<close>

definition price_missing :: "pydict \<Rightarrow> bool" where
  "price_missing leg \<longleftrightarrow>
     dict_get leg ''ask_price'' = PNone \<or> dict_get leg ''bid_price'' = PNone"

text \<open>
  The loop \<open>for i, leg in enumerate(leg_data)\<close> of the box spread: \<open>Some r\<close> when the
  loop returns \<open>r\<close> from inside, \<open>None\<close> when it runs to its end.
\<close>

fun guard_loop :: "pydict list \<Rightarrow> double option" where
  "guard_loop [] = None"
| "guard_loop (leg # rest) =
     (if price_missing leg then Some NegInf else guard_loop rest)"

text \<open>
  After the four multiplications every operand is a float except the strike
  difference, an int, whose conversion in \<open>theoretical_value_usd - net_premium_usd\<close>
  is the only operation left that can raise.
\<close>

definition calculate_box_spread_arbitrage ::
    "int \<Rightarrow> int \<Rightarrow> pydict list \<Rightarrow> double \<Rightarrow> double \<Rightarrow> py_error + double" where
  "calculate_box_spread_arbitrage k1 k2 leg_data btc_usd_price transaction_fee_rate =
     (case guard_loop leg_data of
        Some r \<Rightarrow> Inr r
      | None \<Rightarrow>
          bind_err (leg_price_usd leg_data 0 ''ask_price'' btc_usd_price) (\<lambda>leg0_cost_usd.
          bind_err (leg_price_usd leg_data 1 ''bid_price'' btc_usd_price) (\<lambda>leg1_revenue_usd.
          bind_err (leg_price_usd leg_data 2 ''bid_price'' btc_usd_price) (\<lambda>leg2_revenue_usd.
          bind_err (leg_price_usd leg_data 3 ''ask_price'' btc_usd_price) (\<lambda>leg3_cost_usd.
            let net_premium_usd =
                  fsub (fadd leg0_cost_usd leg3_cost_usd)
                       (fadd leg1_revenue_usd leg2_revenue_usd);
                theoretical_value_usd = k2 - k1;
                total_premiums_for_fees =
                  fadd (fadd (fadd leg0_cost_usd leg1_revenue_usd) leg2_revenue_usd)
                       leg3_cost_usd;
                transaction_fees_usd = fmul total_premiums_for_fees transaction_fee_rate
            in bind_err (int_minus_float theoretical_value_usd net_premium_usd) (\<lambda>gross.
                 Inr (fsub gross transaction_fees_usd)))))))"

definition calculate_calendar_spread_arbitrage ::
    "string \<Rightarrow> int \<Rightarrow> pydict \<Rightarrow> pydict \<Rightarrow> double \<Rightarrow> double \<Rightarrow> py_error + double" where
  "calculate_calendar_spread_arbitrage option_type strike shorter_leg_data longer_leg_data
      btc_usd_price transaction_fee_rate =
     (if dict_get shorter_leg_data ''bid_price'' = PNone
         \<or> dict_get shorter_leg_data ''ask_price'' = PNone
         \<or> dict_get longer_leg_data ''bid_price'' = PNone
         \<or> dict_get longer_leg_data ''ask_price'' = PNone
      then Inr NegInf
      else
        bind_err (bind_err (dict_item shorter_leg_data ''bid_price'')
                    (\<lambda>v. py_mul v btc_usd_price)) (\<lambda>shorter_leg_revenue_usd.
        bind_err (bind_err (dict_item longer_leg_data ''ask_price'')
                    (\<lambda>v. py_mul v btc_usd_price)) (\<lambda>longer_leg_cost_usd.
          let premium_diff_usd = fsub shorter_leg_revenue_usd longer_leg_cost_usd;
              total_premiums_for_fees = fadd shorter_leg_revenue_usd longer_leg_cost_usd;
              transaction_fees_usd = fmul total_premiums_for_fees transaction_fee_rate;
              arbitrage_profit_usd = fsub premium_diff_usd transaction_fees_usd
          in Inr arbitrage_profit_usd)))"

subsection \<open>Vocabulary of the properties\<close>

text \<open>A leg dictionary holding the two prices, as the callers and the tests build it.\<close>

definition quote :: "pyval \<Rightarrow> pyval \<Rightarrow> pydict" where
  "quote a b = [''ask_price'' \<mapsto> a, ''bid_price'' \<mapsto> b]"

text \<open>
  The leg holds a number under the key, and \<open>x\<close> is that number as a float: the float
  itself, or the int converted when it is in the range of a double.
\<close>

definition price_is :: "pydict \<Rightarrow> string \<Rightarrow> double \<Rightarrow> bool" where
  "price_is leg key x \<longleftrightarrow> (case leg key of None \<Rightarrow> False | Some v \<Rightarrow> as_double v = Inr x)"

text \<open>A value that multiplies with a float, and a leg whose two prices do.\<close>

definition is_number :: "pyval \<Rightarrow> bool" where
  "is_number v \<longleftrightarrow> (case as_double v of Inl e \<Rightarrow> False | Inr x \<Rightarrow> True)"

definition numeric_leg :: "pydict \<Rightarrow> bool" where
  "numeric_leg leg \<longleftrightarrow>
     is_number (dict_get leg ''ask_price'') \<and> is_number (dict_get leg ''bid_price'')"

text \<open>
  The test behind \<open>actual == pytest.approx(expected, abs=tol)\<close> on the result of a
  call: the distance of the returned double to \<open>expected\<close> is at most \<open>tol\<close>; an
  exception, an infinity or nan never compares equal.
\<close>

fun approx_abs :: "py_error + double \<Rightarrow> real \<Rightarrow> real \<Rightarrow> bool" where
  "approx_abs (Inr (Fin actual)) expected tol \<longleftrightarrow> \<bar>actual - expected\<bar> \<le> tol"
| "approx_abs (Inr PosInf) expected tol \<longleftrightarrow> False"
| "approx_abs (Inr NegInf) expected tol \<longleftrightarrow> False"
| "approx_abs (Inr NaN) expected tol \<longleftrightarrow> False"
| "approx_abs (Inl e) expected tol \<longleftrightarrow> False"

text \<open>
  The formula of the box spread in its factored form,
  \<open>(k2 - k1) - ((ask0 + ask3) - (bid1 + bid2)) * spotRate
     - (ask0 + bid1 + bid2 + ask3) * spotRate * feeRate\<close>,
  evaluated in float arithmetic in the order in which it is written.
\<close>

definition box_formula_factored ::
    "int \<Rightarrow> int \<Rightarrow> double \<Rightarrow> double \<Rightarrow> double \<Rightarrow> double \<Rightarrow> double \<Rightarrow> double
       \<Rightarrow> py_error + double" where
  "box_formula_factored k1 k2 ask0 bid1 bid2 ask3 spot_rate fee_rate =
     bind_err (int_minus_float (k2 - k1)
                 (fmul (fsub (fadd ask0 ask3) (fadd bid1 bid2)) spot_rate)) (\<lambda>gross.
       Inr (fsub gross
              (fmul (fmul (fadd (fadd (fadd ask0 bid1) bid2) ask3) spot_rate) fee_rate)))"

section \<open>Rounding\<close>

lemma two_powi_eval:
  "(2::real) powi e = (if 0 \<le> e then 2 ^ nat e else 1 / 2 ^ nat (- e))"
  by (simp add: power_int_def inverse_eq_divide power_one_over)

lemma two_powi_pos [simp]: "0 < (2::real) powi e"
  by (simp add: power_int_def)

lemma exponent_of_bounds:
  assumes "x \<noteq> 0"
  shows "2 powi exponent_of x \<le> \<bar>x\<bar>" and "\<bar>x\<bar> < 2 powi (exponent_of x + 1)"
proof -
  have "2 powi exponent_of x \<le> \<bar>x\<bar> \<and> \<bar>x\<bar> < 2 powi (exponent_of x + 1)"
  proof (cases "1 \<le> \<bar>x\<bar>")
    case True
    define n where "n = \<lfloor>\<bar>x\<bar>\<rfloor>"
    have n: "1 \<le> n" using True by (simp add: n_def le_floor_iff)
    then have b: "1 \<le> bitlen n" by (simp add: bitlen_alt_def)
    from n bitlen_bounds [of n] have lo: "2 ^ nat (bitlen n - 1) \<le> n" and hi: "n < 2 ^ nat (bitlen n)"
      by simp_all
    have E: "exponent_of x = bitlen n - 1" using True by (simp add: exponent_of_def n_def)
    have "(2::real) powi (bitlen n - 1) = 2 ^ nat (bitlen n - 1)"
      using b by (simp add: two_powi_eval)
    also have "\<dots> = of_int (2 ^ nat (bitlen n - 1))" by simp
    also have "\<dots> \<le> of_int n" using lo by (simp only: of_int_le_iff)
    also have "\<dots> \<le> \<bar>x\<bar>" by (simp add: n_def)
    finally have 1: "2 powi exponent_of x \<le> \<bar>x\<bar>" by (simp add: E)
    have "\<bar>x\<bar> < of_int (n + 1)" by (simp add: n_def)
    also have "\<dots> \<le> of_int (2 ^ nat (bitlen n))" using hi by (simp only: of_int_le_iff)
    also have "\<dots> = (2::real) powi (bitlen n)" using b by (simp add: two_powi_eval)
    finally have "\<bar>x\<bar> < 2 powi (exponent_of x + 1)" by (simp add: E)
    with 1 show ?thesis by simp
  next
    case False
    define y where "y = 1 / \<bar>x\<bar>"
    define c where "c = \<lceil>y\<rceil>"
    have x: "0 < \<bar>x\<bar>" "\<bar>x\<bar> < 1" using assms False by simp_all
    then have y: "1 < y" by (simp add: y_def)
    then have c: "2 \<le> c" by (simp add: c_def le_ceiling_iff)
    define k where "k = bitlen (c - 1)"
    from c have k: "1 \<le> k" by (simp add: k_def bitlen_alt_def)
    from c bitlen_bounds [of "c - 1"] have lo: "2 ^ nat (k - 1) \<le> c - 1" and hi: "c - 1 < 2 ^ nat k"
      by (simp_all add: k_def)
    have E: "exponent_of x = - k" using False by (simp add: exponent_of_def k_def c_def y_def)
    have "y \<le> of_int c" by (simp add: c_def)
    also have "\<dots> \<le> of_int (2 ^ nat k)" using hi by (simp only: of_int_le_iff)
    finally have "y \<le> 2 ^ nat k" by simp
    then have "1 / 2 ^ nat k \<le> \<bar>x\<bar>" using x by (simp add: y_def field_simps)
    then have 1: "2 powi exponent_of x \<le> \<bar>x\<bar>" using k by (simp add: E two_powi_eval)
    have "of_int (2 ^ nat (k - 1)) \<le> (of_int (c - 1) :: real)" using lo by (simp only: of_int_le_iff)
    also have "\<dots> < y" by (simp add: c_def) linarith
    finally have "2 ^ nat (k - 1) < y" by simp
    then have 2: "\<bar>x\<bar> < 1 / 2 ^ nat (k - 1)" using x by (simp add: y_def field_simps)
    have "\<bar>x\<bar> < 2 powi (exponent_of x + 1)"
    proof (cases "k = 1")
      case True
      with 2 show ?thesis by (simp add: E)
    next
      case False
      with k have "nat (- (1 - k)) = nat (k - 1)" "\<not> 0 \<le> 1 - k" by simp_all
      with 2 show ?thesis by (simp add: E two_powi_eval)
    qed
    with 1 show ?thesis by simp
  qed
  then show "2 powi exponent_of x \<le> \<bar>x\<bar>" and "\<bar>x\<bar> < 2 powi (exponent_of x + 1)"
    by simp_all
qed

lemma round_half_even_of_int [simp]: "round_half_even (of_int k) = k"
  by (simp add: round_half_even_def)

lemma round_half_even_bounds:
  "\<lfloor>r\<rfloor> \<le> round_half_even r" "round_half_even r \<le> \<lfloor>r\<rfloor> + 1"
  by (simp_all add: round_half_even_def Let_def)

lemma round_half_even_mono:
  assumes "a \<le> b"
  shows "round_half_even a \<le> round_half_even b"
proof (cases "\<lfloor>a\<rfloor> = \<lfloor>b\<rfloor>")
  case True
  with assms have "a - of_int \<lfloor>a\<rfloor> \<le> b - of_int \<lfloor>b\<rfloor>" by simp
  with True show ?thesis
    by (auto simp add: round_half_even_def Let_def)
next
  case False
  with assms have "\<lfloor>a\<rfloor> < \<lfloor>b\<rfloor>"
    using floor_mono [of a b] by linarith
  then have "\<lfloor>a\<rfloor> + 1 \<le> \<lfloor>b\<rfloor>" by simp
  with round_half_even_bounds(2) [of a] round_half_even_bounds(1) [of b]
  show ?thesis by linarith
qed

lemma round_half_even_le_int: "a \<le> of_int k \<Longrightarrow> round_half_even a \<le> k"
  using round_half_even_mono [of a "of_int k"] by (simp only: round_half_even_of_int)

lemma round_half_even_ge_int: "of_int k \<le> a \<Longrightarrow> k \<le> round_half_even a"
  using round_half_even_mono [of "of_int k" a] by (simp only: round_half_even_of_int)

lemma ulp_exponent_ge: "exponent_of x - 52 \<le> ulp_exponent x" "- 1074 \<le> ulp_exponent x"
  by (simp_all add: ulp_exponent_def)

text \<open>
  A multiple of a power of two that is at least the unit in the last place of \<open>x\<close> is
  itself a rounding candidate, so rounding \<open>x\<close> never crosses it.
\<close>

lemma grid_point:
  assumes "ulp_exponent x \<le> g"
  shows "(of_int k :: real) * 2 powi g
           = of_int (k * 2 ^ nat (g - ulp_exponent x)) * 2 powi ulp_exponent x"
proof -
  have "(2::real) powi g = 2 powi (g - ulp_exponent x) * 2 powi ulp_exponent x"
    by (simp flip: power_int_add)
  also have "(2::real) powi (g - ulp_exponent x) = 2 ^ nat (g - ulp_exponent x)"
    using assms by (simp add: two_powi_eval)
  finally show ?thesis by simp
qed

lemma round_unbounded_le_grid:
  assumes "ulp_exponent x \<le> g" and "x \<le> of_int k * 2 powi g"
  shows "round_unbounded x \<le> of_int k * 2 powi g"
proof (cases "x = 0")
  case True
  with assms(2) show ?thesis by (simp add: round_unbounded_def)
next
  case False
  let ?u = "(2::real) powi ulp_exponent x"
  let ?K = "k * 2 ^ nat (g - ulp_exponent x)"
  have c: "of_int k * 2 powi g = of_int ?K * ?u" using assms(1) by (rule grid_point)
  with assms(2) have "x / ?u \<le> of_int ?K" by (simp add: field_simps)
  then have "round_half_even (x / ?u) \<le> ?K"
    by (rule round_half_even_le_int)
  then have "(of_int (round_half_even (x / ?u)) :: real) \<le> of_int ?K"
    by (simp only: of_int_le_iff)
  then have "of_int (round_half_even (x / ?u)) * ?u \<le> of_int ?K * ?u"
    by (rule mult_right_mono) simp
  also have "\<dots> = of_int k * 2 powi g" by (rule c [symmetric])
  finally have "of_int (round_half_even (x / ?u)) * ?u \<le> of_int k * 2 powi g" .
  moreover have "round_unbounded x = of_int (round_half_even (x / ?u)) * ?u"
    using False by (simp add: round_unbounded_def)
  ultimately show ?thesis by (simp only:)
qed

lemma round_unbounded_ge_grid:
  assumes "ulp_exponent x \<le> g" and "of_int k * 2 powi g \<le> x"
  shows "of_int k * 2 powi g \<le> round_unbounded x"
proof (cases "x = 0")
  case True
  with assms(2) show ?thesis by (simp add: round_unbounded_def)
next
  case False
  let ?u = "(2::real) powi ulp_exponent x"
  let ?K = "k * 2 ^ nat (g - ulp_exponent x)"
  have c: "of_int k * 2 powi g = of_int ?K * ?u" using assms(1) by (rule grid_point)
  with assms(2) have "of_int ?K \<le> x / ?u" by (simp add: field_simps)
  then have "?K \<le> round_half_even (x / ?u)"
    by (rule round_half_even_ge_int)
  then have "(of_int ?K :: real) \<le> of_int (round_half_even (x / ?u))"
    by (simp only: of_int_le_iff)
  then have "of_int ?K * ?u \<le> of_int (round_half_even (x / ?u)) * ?u"
    by (rule mult_right_mono) simp
  then have "of_int k * 2 powi g \<le> of_int (round_half_even (x / ?u)) * ?u"
    by (simp only: c)
  moreover have "round_unbounded x = of_int (round_half_even (x / ?u)) * ?u"
    using False by (simp add: round_unbounded_def)
  ultimately show ?thesis by (simp only:)
qed

lemma exponent_of_mono:
  assumes "x \<noteq> 0" and "y \<noteq> 0" and "\<bar>x\<bar> \<le> \<bar>y\<bar>"
  shows "exponent_of x \<le> exponent_of y"
proof (rule ccontr)
  assume "\<not> exponent_of x \<le> exponent_of y"
  then have "exponent_of y + 1 \<le> exponent_of x" by simp
  then have "(2::real) powi (exponent_of y + 1) \<le> 2 powi exponent_of x"
    by (intro power_int_increasing) simp_all
  with exponent_of_bounds(2) [OF assms(2)] exponent_of_bounds(1) [OF assms(1)] assms(3)
  show False by linarith
qed

lemma ulp_exponent_mono:
  assumes "x \<noteq> 0" and "y \<noteq> 0" and "\<bar>x\<bar> \<le> \<bar>y\<bar>"
  shows "ulp_exponent x \<le> ulp_exponent y"
  using exponent_of_mono [OF assms] by (simp add: ulp_exponent_def)

text \<open>Rounding to nearest is monotone, across binades and through zero.\<close>

lemma round_unbounded_mono:
  assumes "x \<le> y"
  shows "round_unbounded x \<le> round_unbounded y"
proof -
  consider "x = 0" | "y = 0" | "x \<noteq> 0" "y \<noteq> 0" "ulp_exponent x = ulp_exponent y"
    | "x \<noteq> 0" "y \<noteq> 0" "ulp_exponent x < ulp_exponent y"
    | "x \<noteq> 0" "y \<noteq> 0" "ulp_exponent y < ulp_exponent x"
    by linarith
  then show ?thesis
  proof cases
    case 1
    with assms round_unbounded_ge_grid [of y "ulp_exponent y" 0] show ?thesis
      by (simp add: round_unbounded_def)
  next
    case 2
    with assms round_unbounded_le_grid [of x "ulp_exponent x" 0] show ?thesis
      by (simp add: round_unbounded_def)
  next
    case 3
    let ?u = "(2::real) powi ulp_exponent y"
    from assms have "x / ?u \<le> y / ?u" by (simp add: divide_right_mono)
    then have "round_half_even (x / ?u) \<le> round_half_even (y / ?u)"
      by (rule round_half_even_mono)
    then have "(of_int (round_half_even (x / ?u)) :: real) \<le> of_int (round_half_even (y / ?u))"
      by (simp only: of_int_le_iff)
    then have "of_int (round_half_even (x / ?u)) * ?u \<le> of_int (round_half_even (y / ?u)) * ?u"
      by (simp add: mult_right_mono)
    with 3 show ?thesis by (simp add: round_unbounded_def)
  next
    case 4
    have "\<not> \<bar>y\<bar> \<le> \<bar>x\<bar>"
      using ulp_exponent_mono [OF 4(2) 4(1)] 4(3) by auto
    with assms have ypos: "0 < y" and lt: "\<bar>x\<bar> < \<bar>y\<bar>" by linarith+
    let ?g = "exponent_of y"
    from 4(3) ulp_exponent_ge(2) [of x] have ey: "ulp_exponent y = ?g - 52"
      by (simp add: ulp_exponent_def max_def split: if_splits)
    with 4(3) ulp_exponent_ge(1) [of x] have "exponent_of x + 1 \<le> ?g" by simp
    then have "(2::real) powi (exponent_of x + 1) \<le> 2 powi ?g"
      by (intro power_int_increasing) simp_all
    with exponent_of_bounds(2) [OF 4(1)] have xle: "x \<le> of_int 1 * 2 powi ?g" by simp
    from exponent_of_bounds(1) [OF 4(2)] ypos have yge: "of_int 1 * 2 powi ?g \<le> y" by simp
    have gx: "ulp_exponent x \<le> ?g" using 4(3) ey by simp
    have gy: "ulp_exponent y \<le> ?g" using ey by simp
    from round_unbounded_le_grid [OF gx xle] round_unbounded_ge_grid [OF gy yge]
    show ?thesis by linarith
  next
    case 5
    have "\<not> \<bar>x\<bar> \<le> \<bar>y\<bar>"
      using ulp_exponent_mono [OF 5(1) 5(2)] 5(3) by auto
    with assms have xneg: "x < 0" and lt: "\<bar>y\<bar> < \<bar>x\<bar>" by linarith+
    let ?g = "exponent_of x"
    from 5(3) ulp_exponent_ge(2) [of y] have ex: "ulp_exponent x = ?g - 52"
      by (simp add: ulp_exponent_def max_def split: if_splits)
    with 5(3) ulp_exponent_ge(1) [of y] have "exponent_of y + 1 \<le> ?g" by simp
    then have "(2::real) powi (exponent_of y + 1) \<le> 2 powi ?g"
      by (intro power_int_increasing) simp_all
    with exponent_of_bounds(2) [OF 5(2)] have yge: "of_int (- 1) * 2 powi ?g \<le> y" by simp
    from exponent_of_bounds(1) [OF 5(1)] xneg have xle: "x \<le> of_int (- 1) * 2 powi ?g" by simp
    have gy: "ulp_exponent y \<le> ?g" using 5(3) ex by simp
    have gx: "ulp_exponent x \<le> ?g" using ex by simp
    from round_unbounded_le_grid [OF gx xle] round_unbounded_ge_grid [OF gy yge]
    show ?thesis by linarith
  qed
qed

lemma rnd_not_NaN [simp]: "rnd x \<noteq> NaN"
  by (simp add: rnd_def Let_def)

lemma rnd_mono: "x \<le> y \<Longrightarrow> dle (rnd x) (rnd y)"
  using round_unbounded_mono [of x y] by (auto simp add: rnd_def Let_def)

lemma dle_PosInf [simp]: "dle x PosInf \<longleftrightarrow> x \<noteq> NaN"
  by (cases x) simp_all

lemma dle_NegInf [simp]: "dle NegInf x \<longleftrightarrow> x \<noteq> NaN"
  by (cases x) simp_all

lemma dle_refl [simp]: "dle x x \<longleftrightarrow> x \<noteq> NaN"
  by (cases x) simp_all

lemma dle_not_dlt: "dle y x \<Longrightarrow> \<not> dlt x y"
  by (cases x; cases y) simp_all

text \<open>A positive factor keeps the order of two floats, up to nan from \<open>inf * 0\<close>.\<close>

lemma fmul_mono:
  assumes "dlt (Fin 0) b" and "dlt f1 f2"
  shows "fmul b f1 = NaN \<or> fmul b f2 = NaN \<or> dle (fmul b f1) (fmul b f2)"
proof (cases b)
  case (Fin x)
  with assms(1) have x: "0 < x" by simp
  show ?thesis
  proof (cases f1; cases f2)
    fix y1 y2 assume f: "f1 = Fin y1" "f2 = Fin y2"
    with assms(2) x have "x * y1 \<le> x * y2" by simp
    then show ?thesis using Fin f by (simp add: rnd_mono)
  qed (use assms(2) x Fin in simp_all)
next
  case PosInf
  then show ?thesis using assms(2) by (cases f1; cases f2) auto
qed (use assms(1) in simp_all)

text \<open>Subtracting the larger of two floats from the same float gives the smaller result.\<close>

lemma fsub_antimono:
  assumes "dle u v"
  shows "fsub c u = NaN \<or> fsub c v = NaN \<or> dle (fsub c v) (fsub c u)"
proof (cases c)
  case (Fin z)
  show ?thesis
  proof (cases u; cases v)
    fix x y assume uv: "u = Fin x" "v = Fin y"
    with assms have "z + - y \<le> z + - x" by simp
    then show ?thesis using Fin uv by (simp add: fsub_def rnd_mono)
  qed (use assms Fin in \<open>simp_all add: fsub_def\<close>)
qed (use assms in \<open>cases u; cases v; simp add: fsub_def\<close>)+

lemma profit_never_increases:
  assumes "dlt (Fin 0) b" and "dlt f1 f2"
  shows "fsub c (fmul b f1) = NaN \<or> fsub c (fmul b f2) = NaN
       \<or> dle (fsub c (fmul b f2)) (fsub c (fmul b f1))"
proof -
  have nan: "fsub c NaN = NaN" by (cases c) (simp_all add: fsub_def)
  from fmul_mono [OF assms] show ?thesis
    using fsub_antimono [of "fmul b f1" "fmul b f2" c] by (auto simp add: nan)
qed

section \<open>Evaluation on concrete inputs\<close>

lemma bitlen_numeral_step: "bitlen (numeral n) = bitlen (numeral n div 2) + 1"
  by (subst compute_bitlen) simp

lemma bitlen_one [simp]: "bitlen 1 = 1"
  by (subst compute_bitlen) simp

lemmas float_eval = rnd_def round_unbounded_def ulp_exponent_def exponent_of_def
  round_half_even_def bitlen_numeral_step two_powi_eval Let_def fsub_def

lemmas box_defs = calculate_box_spread_arbitrage_def price_missing_def leg_price_usd_def
  list_item_def bind_err_def py_mul_def int_minus_float_def int_to_double_def

lemmas calendar_defs = calculate_calendar_spread_arbitrage_def bind_err_def py_mul_def

lemma dict_get_quote [simp]:
  "dict_get (quote a b) ''ask_price'' = a"
  "dict_get (quote a b) ''bid_price'' = b"
  by (simp_all add: dict_get_def quote_def)

lemma dict_item_quote [simp]:
  "dict_item (quote a b) ''ask_price'' = Inr a"
  "dict_item (quote a b) ''bid_price'' = Inr b"
  by (simp_all add: dict_item_def quote_def)

lemma price_is_quote [simp]:
  "price_is (quote (PFloat a) b) ''ask_price'' x \<longleftrightarrow> a = x"
  "price_is (quote c (PFloat d)) ''bid_price'' y \<longleftrightarrow> d = y"
  by (simp_all add: price_is_def quote_def)

section \<open>Facts about the two pricers\<close>

lemma guard_loop_missing:
  "\<exists>leg \<in> set leg_data. price_missing leg \<Longrightarrow> guard_loop leg_data = Some NegInf"
  by (induction leg_data) auto

lemma guard_loop_complete:
  "\<forall>leg \<in> set leg_data. \<not> price_missing leg \<Longrightarrow> guard_loop leg_data = None"
  by (induction leg_data) auto

lemma box_missing:
  "\<exists>leg \<in> set leg_data. price_missing leg \<Longrightarrow>
     calculate_box_spread_arbitrage k1 k2 leg_data s f = Inr NegInf"
  by (simp add: calculate_box_spread_arbitrage_def guard_loop_missing)

lemma price_is_present: "price_is leg key x \<Longrightarrow> dict_get leg key \<noteq> PNone"
  by (auto simp add: price_is_def dict_get_def split: option.splits)

lemma price_is_mul:
  "price_is leg key x \<Longrightarrow> bind_err (dict_item leg key) (\<lambda>v. py_mul v s) = Inr (fmul x s)"
  by (auto simp add: price_is_def dict_item_def py_mul_def bind_err_def split: option.splits)

text \<open>
  With numbers in all four legs the guard is passed, no lookup and no multiplication
  raises, and the call computes the five valuation steps in the order of the source.
\<close>

lemma box_numeric:
  assumes "price_is l0 ''ask_price'' a0" and "price_is l0 ''bid_price'' b0"
    and "price_is l1 ''ask_price'' a1" and "price_is l1 ''bid_price'' b1"
    and "price_is l2 ''ask_price'' a2" and "price_is l2 ''bid_price'' b2"
    and "price_is l3 ''ask_price'' a3" and "price_is l3 ''bid_price'' b3"
  shows "calculate_box_spread_arbitrage k1 k2 [l0, l1, l2, l3] s f =
           bind_err (int_to_double (k2 - k1)) (\<lambda>theoretical.
             Inr (fsub (fsub theoretical
                          (fsub (fadd (fmul a0 s) (fmul a3 s)) (fadd (fmul b1 s) (fmul b2 s))))
                       (fmul (fadd (fadd (fadd (fmul a0 s) (fmul b1 s)) (fmul b2 s)) (fmul a3 s))
                             f)))"
proof -
  have g: "guard_loop [l0, l1, l2, l3] = None"
    using assms by (simp add: price_missing_def price_is_present)
  have p: "leg_price_usd [l0, l1, l2, l3] 0 ''ask_price'' s = Inr (fmul a0 s)"
      "leg_price_usd [l0, l1, l2, l3] 1 ''bid_price'' s = Inr (fmul b1 s)"
      "leg_price_usd [l0, l1, l2, l3] 2 ''bid_price'' s = Inr (fmul b2 s)"
      "leg_price_usd [l0, l1, l2, l3] 3 ''ask_price'' s = Inr (fmul a3 s)"
    using assms(1,4,6,7) price_is_mul
    by (simp_all add: leg_price_usd_def list_item_def) (simp_all add: bind_err_def)
  show ?thesis
    unfolding calculate_box_spread_arbitrage_def g p
    by (simp add: bind_err_def int_minus_float_def split: sum.splits)
qed

lemma calendar_numeric:
  assumes "price_is shorter ''bid_price'' bs" and "price_is shorter ''ask_price'' as"
    and "price_is longer ''bid_price'' bl" and "price_is longer ''ask_price'' al"
  shows "calculate_calendar_spread_arbitrage option_type strike shorter longer s f =
           Inr (fsub (fsub (fmul bs s) (fmul al s)) (fmul (fadd (fmul bs s) (fmul al s)) f))"
proof -
  have "bind_err (dict_item shorter ''bid_price'') (\<lambda>v. py_mul v s) = Inr (fmul bs s)"
    and "bind_err (dict_item longer ''ask_price'') (\<lambda>v. py_mul v s) = Inr (fmul al s)"
    using assms(1,4) by (simp_all add: price_is_mul)
  then show ?thesis
    using assms by (simp add: calculate_calendar_spread_arbitrage_def price_is_present)
      (simp add: bind_err_def)
qed

lemma leg_price_usd_out_of_range:
  "length leg_data \<le> i \<Longrightarrow> leg_price_usd leg_data i key s = Inl IndexError"
  by (simp add: leg_price_usd_def list_item_def bind_err_def)

lemma numeric_leg_complete: "numeric_leg leg \<Longrightarrow> \<not> price_missing leg"
  by (auto simp add: numeric_leg_def price_missing_def is_number_def)

lemma numeric_leg_price:
  assumes "numeric_leg leg" and "key = ''ask_price'' \<or> key = ''bid_price''"
  shows "\<exists>x. bind_err (dict_item leg key) (\<lambda>v. py_mul v s) = Inr (fmul x s)"
proof -
  from assms have n: "is_number (dict_get leg key)" by (auto simp add: numeric_leg_def)
  then obtain v where v: "leg key = Some v" "is_number v"
    by (cases "leg key") (simp_all add: dict_get_def is_number_def)
  then obtain x where "as_double v = Inr x"
    by (cases "as_double v") (simp_all add: is_number_def)
  with v have "bind_err (dict_item leg key) (\<lambda>v. py_mul v s) = Inr (fmul x s)"
    by (simp add: dict_item_def py_mul_def bind_err_def)
  then show ?thesis ..
qed

lemma leg_price_usd_numeric:
  assumes "\<forall>leg \<in> set leg_data. numeric_leg leg"
    and "key = ''ask_price'' \<or> key = ''bid_price''"
  shows "leg_price_usd leg_data i key s = Inl IndexError
       \<or> (\<exists>x. leg_price_usd leg_data i key s = Inr x)"
proof (cases "i < length leg_data")
  case False
  then show ?thesis by (simp add: leg_price_usd_out_of_range)
next
  case True
  with assms(1) have "numeric_leg (leg_data ! i)" by simp
  from numeric_leg_price [OF this assms(2), of s] True show ?thesis
    by (auto simp add: leg_price_usd_def list_item_def) (simp add: bind_err_def)
qed

lemma guard_loop_append:
  "guard_loop (xs @ ys) = (case guard_loop xs of Some r \<Rightarrow> Some r | None \<Rightarrow> guard_loop ys)"
  by (induction xs) simp_all

lemma leg_price_usd_append:
  "i < length xs \<Longrightarrow> leg_price_usd (xs @ ys) i key s = leg_price_usd xs i key s"
  by (simp add: leg_price_usd_def list_item_def nth_append)

lemma box_extra:
  assumes "length first = 4" and "\<forall>leg \<in> set extra. \<not> price_missing leg"
  shows "calculate_box_spread_arbitrage k1 k2 (first @ extra) s f =
         calculate_box_spread_arbitrage k1 k2 first s f"
proof -
  have "guard_loop extra = None" using assms(2) by (rule guard_loop_complete)
  then have "guard_loop (first @ extra) = guard_loop first"
    by (simp add: guard_loop_append split: option.splits)
  then show ?thesis
    using assms(1)
    by (simp add: calculate_box_spread_arbitrage_def leg_price_usd_append
        cong: option.case_cong)
qed

section \<open>The valuation formulas\<close>

text \<open>
  Claim C1, as the spec states it: with numeric prices in all four legs the box-spread
  pricer returns exactly
  \<open>(k2 - k1) - ((ask0 + ask3) - (bid1 + bid2)) * spotRate
     - (ask0 + bid1 + bid2 + ask3) * spotRate * feeRate\<close>.
  It does not hold. With asks \<open>1.0\<close> and \<open>2 ** -53\<close>, all bids \<open>0.0\<close>, spot rate
  \<open>3.0\<close>, fee rate \<open>0.0\<close> and equal strikes the call returns \<open>-3.0000000000000004\<close>;
  the factored formula gives \<open>-3.0\<close> in float arithmetic, and \<open>-(3 + 3 / 2 ^ 53)\<close> in
  exact arithmetic. The source multiplies each price by the spot rate before it adds.
\<close>

theorem box_spread_factored_formula_counterexample:
  "calculate_box_spread_arbitrage 0 0
     [quote (PFloat (rnd 1.0)) (PFloat (rnd 0.0)), quote (PFloat (rnd 0.0)) (PFloat (rnd 0.0)),
      quote (PFloat (rnd 0.0)) (PFloat (rnd 0.0)),
      quote (PFloat (rnd (1 / 2 ^ 53))) (PFloat (rnd 0.0))]
     (rnd 3.0) (rnd 0.0) = Inr (Fin (- (3 + 1 / 2 ^ 51)))
   \<and> box_formula_factored 0 0 (rnd 1.0) (rnd 0.0) (rnd 0.0) (rnd (1 / 2 ^ 53))
       (rnd 3.0) (rnd 0.0) = Inr (Fin (- 3))
   \<and> real_of_int (0 - 0) - ((1 + 1 / 2 ^ 53) - (0 + 0)) * 3
       - (1 + 0 + 0 + 1 / 2 ^ 53) * 3 * 0 = - (3 + 3 / 2 ^ 53)"
  by (simp add: box_defs box_formula_factored_def float_eval)

text \<open>
  Claim C1, amended. With numeric prices in all four legs the box-spread pricer returns
  the theoretical value less the net premium less the fees as the five valuation steps
  compute them in float arithmetic, every operation rounded to a double, in this order:
  each price times the spot rate first; the net premium
  \<open>(leg0cost + leg3cost) - (leg1revenue + leg2revenue)\<close>; the fees
  \<open>(leg0cost + leg1revenue + leg2revenue + leg3cost) * feeRate\<close>; the profit
  \<open>((k2 - k1) - netPremium) - fees\<close>. When \<open>k2 - k1\<close> is too large for a double, its
  conversion raises \<open>OverflowError\<close>.
\<close>

theorem box_spread_profit_five_steps:
  assumes "price_is l0 ''ask_price'' a0" and "price_is l0 ''bid_price'' b0"
    and "price_is l1 ''ask_price'' a1" and "price_is l1 ''bid_price'' b1"
    and "price_is l2 ''ask_price'' a2" and "price_is l2 ''bid_price'' b2"
    and "price_is l3 ''ask_price'' a3" and "price_is l3 ''bid_price'' b3"
  shows "calculate_box_spread_arbitrage k1 k2 [l0, l1, l2, l3] s f =
           bind_err (int_to_double (k2 - k1)) (\<lambda>theoretical.
             Inr (fsub (fsub theoretical
                          (fsub (fadd (fmul a0 s) (fmul a3 s)) (fadd (fmul b1 s) (fmul b2 s))))
                       (fmul (fadd (fadd (fadd (fmul a0 s) (fmul b1 s)) (fmul b2 s)) (fmul a3 s))
                             f)))"
  using assms by (rule box_numeric)

theorem box_spread_profit_five_steps_witness:
  "calculate_box_spread_arbitrage 60000 61000
     [quote (PFloat (rnd 0.0055)) (PFloat (rnd 0.0054)),
      quote (PFloat (rnd 0.0015)) (PFloat (rnd 0.0014)),
      quote (PFloat (rnd 0.0008)) (PFloat (rnd 0.0007)),
      quote (PFloat (rnd 0.0048)) (PFloat (rnd 0.0047))]
     (rnd 70000.0) (rnd 0.0003) = Inr (Fin (3744845124837625 / 2 ^ 43))"
proof -
  have p: "price_is (quote (PFloat (rnd 0.0055)) (PFloat (rnd 0.0054))) ''ask_price'' (rnd 0.0055)"
      "price_is (quote (PFloat (rnd 0.0055)) (PFloat (rnd 0.0054))) ''bid_price'' (rnd 0.0054)"
      "price_is (quote (PFloat (rnd 0.0015)) (PFloat (rnd 0.0014))) ''ask_price'' (rnd 0.0015)"
      "price_is (quote (PFloat (rnd 0.0015)) (PFloat (rnd 0.0014))) ''bid_price'' (rnd 0.0014)"
      "price_is (quote (PFloat (rnd 0.0008)) (PFloat (rnd 0.0007))) ''ask_price'' (rnd 0.0008)"
      "price_is (quote (PFloat (rnd 0.0008)) (PFloat (rnd 0.0007))) ''bid_price'' (rnd 0.0007)"
      "price_is (quote (PFloat (rnd 0.0048)) (PFloat (rnd 0.0047))) ''ask_price'' (rnd 0.0048)"
      "price_is (quote (PFloat (rnd 0.0048)) (PFloat (rnd 0.0047))) ''bid_price'' (rnd 0.0047)"
    by simp_all
  show ?thesis
    unfolding box_spread_profit_five_steps [OF p]
    by (simp add: bind_err_def int_to_double_def float_eval)
qed

text \<open>
  Claim C3, as the spec states it: with numeric prices in both legs the calendar-spread
  pricer returns exactly
  \<open>(bid(shorter) * spotRate - ask(longer) * spotRate)
     - (bid(shorter) * spotRate + ask(longer) * spotRate) * feeRate\<close>.
  It does not hold for every numeric price: a Python int is a number, and with the int
  \<open>10 ** 400\<close> as the bid of the shorter leg the product with the spot rate raises
  \<open>OverflowError\<close>, so that the call returns no value.
\<close>

theorem calendar_spread_int_price_counterexample:
  "calculate_calendar_spread_arbitrage ''CALL'' 60000
     (quote (PFloat (rnd 0.0031)) (PInt (10 ^ 400)))
     (quote (PFloat (rnd 0.0020)) (PFloat (rnd 0.0019)))
     (rnd 70000.0) (rnd 0.0003) = Inl OverflowError"
  by (simp add: calendar_defs int_to_double_def float_eval)

text \<open>
  Claim C3, amended. With numeric prices in both legs, each a float or an int in the
  range of a double, the calendar-spread pricer returns exactly
  \<open>(bid(shorter) * spotRate - ask(longer) * spotRate)
     - (bid(shorter) * spotRate + ask(longer) * spotRate) * feeRate\<close>,
  the premium difference less the fees: the value of this expression in float
  arithmetic, operation by operation as it is written, which is an infinity or nan
  when a product overflows.
\<close>

theorem calendar_spread_profit_formula:
  assumes "price_is shorter ''bid_price'' bs" and "price_is shorter ''ask_price'' as"
    and "price_is longer ''bid_price'' bl" and "price_is longer ''ask_price'' al"
  shows "calculate_calendar_spread_arbitrage option_type strike shorter longer s f =
           Inr (fsub (fsub (fmul bs s) (fmul al s)) (fmul (fadd (fmul bs s) (fmul al s)) f))"
  using assms by (rule calendar_numeric)

theorem calendar_spread_profit_formula_witness:
  "calculate_calendar_spread_arbitrage ''CALL'' 60000
     (quote (PFloat (rnd 0.1)) (PFloat (rnd 0.1))) (quote (PFloat (rnd 0.2)) (PFloat (rnd 0.2)))
     (rnd 3.0) (rnd 0.0) = Inr (Fin (- (1351079888211149 / 2 ^ 52)))"
proof -
  have p: "price_is (quote (PFloat (rnd 0.1)) (PFloat (rnd 0.1))) ''bid_price'' (rnd 0.1)"
      "price_is (quote (PFloat (rnd 0.1)) (PFloat (rnd 0.1))) ''ask_price'' (rnd 0.1)"
      "price_is (quote (PFloat (rnd 0.2)) (PFloat (rnd 0.2))) ''bid_price'' (rnd 0.2)"
      "price_is (quote (PFloat (rnd 0.2)) (PFloat (rnd 0.2))) ''ask_price'' (rnd 0.2)"
    by simp_all
  show ?thesis
    unfolding calendar_spread_profit_formula [OF p]
    by (simp add: float_eval)
qed

text \<open>
  Claim C5. The profit scenario of the test suite: strikes 60000 and 61000, the four
  quoted legs, spot rate 70000.0 and fee rate 0.0003 give a profit within \<open>1e-5\<close>
  of 572.7459.
\<close>

theorem box_spread_positive_profit_scenario:
  "approx_abs
     (calculate_box_spread_arbitrage 60000 61000
        [quote (PFloat (rnd 0.0050)) (PFloat (rnd 0.0049)),
         quote (PFloat (rnd 0.0021)) (PFloat (rnd 0.0020)),
         quote (PFloat (rnd 0.0011)) (PFloat (rnd 0.0010)),
         quote (PFloat (rnd 0.0041)) (PFloat (rnd 0.0040))]
        (rnd 70000.0) (rnd 0.0003))
     572.7459 (1 / 100000)"
  by (simp add: box_defs float_eval)

section \<open>The completeness guard\<close>

text \<open>
  Claim C2. In a box-spread call with four legs, when the leg at any one position lacks
  \<open>ask_price\<close> or \<open>bid_price\<close> (the key is missing or holds \<open>None\<close>), the result is
  negative infinity, whatever the other three legs hold: the guard returns before any
  price is read or multiplied.
\<close>

theorem box_spread_missing_price_neg_inf:
  assumes "length leg_data = 4" and "i < 4" and "price_missing (leg_data ! i)"
  shows "calculate_box_spread_arbitrage k1 k2 leg_data s f = Inr NegInf"
proof -
  from assms(1,2) have "leg_data ! i \<in> set leg_data" by simp
  with assms(3) have "\<exists>leg \<in> set leg_data. price_missing leg" by blast
  then show ?thesis by (rule box_missing)
qed

theorem box_spread_missing_price_neg_inf_witness:
  "calculate_box_spread_arbitrage 60000 61000
     [quote (PStr ''*'') (PFloat (rnd 0.0049)),
      quote (PFloat (rnd 0.0021)) (PFloat (rnd 0.0020)),
      quote (PFloat (rnd 0.0011)) PNone,
      quote (PFloat (rnd 0.0041)) (PFloat (rnd 0.0040))]
     (rnd 70000.0) (rnd 0.0003) = Inr NegInf"
proof -
  let ?legs = "[quote (PStr ''*'') (PFloat (rnd 0.0049)),
      quote (PFloat (rnd 0.0021)) (PFloat (rnd 0.0020)),
      quote (PFloat (rnd 0.0011)) PNone,
      quote (PFloat (rnd 0.0041)) (PFloat (rnd 0.0040))]"
  have len: "length ?legs = 4" by simp
  have idx: "(2::nat) < 4" by simp
  have miss: "price_missing (?legs ! 2)" by (simp add: price_missing_def)
  show ?thesis
    using box_spread_missing_price_neg_inf [OF len idx miss] .
qed

text \<open>
  Claim C4. In a calendar-spread call, when the shorter-expiry leg or the longer-expiry
  leg lacks \<open>bid_price\<close> or \<open>ask_price\<close>, the result is negative infinity, whatever
  the other leg, the option type, the strike, the spot rate and the fee rate are.
\<close>

theorem calendar_spread_missing_price_neg_inf:
  assumes "dict_get shorter ''bid_price'' = PNone \<or> dict_get shorter ''ask_price'' = PNone
         \<or> dict_get longer ''bid_price'' = PNone \<or> dict_get longer ''ask_price'' = PNone"
  shows "calculate_calendar_spread_arbitrage option_type strike shorter longer s f = Inr NegInf"
  using assms by (auto simp add: calculate_calendar_spread_arbitrage_def)

theorem calendar_spread_missing_price_neg_inf_witness:
  "calculate_calendar_spread_arbitrage ''PUT'' 60000
     (quote (PFloat (rnd 0.0031)) (PFloat (rnd 0.0030))) [''bid_price'' \<mapsto> PStr ''*'']
     (rnd 70000.0) (rnd 0.0003) = Inr NegInf"
proof -
  have miss: "dict_get (quote (PFloat (rnd 0.0031)) (PFloat (rnd 0.0030))) ''bid_price'' = PNone
      \<or> dict_get (quote (PFloat (rnd 0.0031)) (PFloat (rnd 0.0030))) ''ask_price'' = PNone
      \<or> dict_get [''bid_price'' \<mapsto> PStr ''*''] ''bid_price'' = PNone
      \<or> dict_get [''bid_price'' \<mapsto> PStr ''*''] ''ask_price'' = PNone"
    by (simp add: dict_get_def)
  show ?thesis
    using calendar_spread_missing_price_neg_inf [OF miss] .
qed

text \<open>
  Claim C6. The missing-data scenario of the test suite puts the string \<open>'*'\<close> under
  \<open>bid_price\<close> of leg 2 and expects negative infinity. The guard tests only for
  \<open>None\<close>, so the string passes it, and the multiplication of leg 2's bid by the spot
  rate raises \<open>TypeError\<close>: the call returns no value.
\<close>

theorem box_spread_placeholder_raises:
  "calculate_box_spread_arbitrage 60000 61000
     [quote (PFloat (rnd 0.0050)) (PFloat (rnd 0.0049)),
      quote (PFloat (rnd 0.0021)) (PFloat (rnd 0.0020)),
      quote (PFloat (rnd 0.0011)) (PStr ''*''),
      quote (PFloat (rnd 0.0041)) (PFloat (rnd 0.0040))]
     (rnd 70000.0) (rnd 0.0003) = Inl TypeError"
  by (simp add: box_defs)

section \<open>Relations between calls\<close>

text \<open>
  Claim C7, as the spec states it: with a strictly positive fee base, a strictly larger
  fee rate gives a strictly smaller profit, for either pricer. It does not hold in
  float arithmetic, where a fee smaller than the rounding step of the profit is
  absorbed. Box spread: strikes 0 and \<open>10 ** 17\<close>, every price \<open>1.0\<close>, spot rate
  \<open>1.0\<close>, so the fee base is \<open>4.0\<close>; the fee rates \<open>0.25\<close> and \<open>0.5\<close> both give
  \<open>1e17\<close>. Calendar spread: shorter bid \<open>2.0\<close>, longer ask \<open>1.0\<close>, spot rate \<open>1.0\<close>,
  so the fee base is \<open>3.0\<close>; the fee rates \<open>1e-20\<close> and \<open>2e-20\<close> both give \<open>1.0\<close>.
\<close>

theorem fee_monotonicity_strict_counterexample:
  "dlt (Fin 0)
     (fadd (fadd (fadd (fmul (rnd 1.0) (rnd 1.0)) (fmul (rnd 1.0) (rnd 1.0)))
                 (fmul (rnd 1.0) (rnd 1.0))) (fmul (rnd 1.0) (rnd 1.0)))
   \<and> dlt (rnd 0.25) (rnd 0.5)
   \<and> calculate_box_spread_arbitrage 0 (10 ^ 17)
       [quote (PFloat (rnd 1.0)) (PFloat (rnd 1.0)), quote (PFloat (rnd 1.0)) (PFloat (rnd 1.0)),
        quote (PFloat (rnd 1.0)) (PFloat (rnd 1.0)), quote (PFloat (rnd 1.0)) (PFloat (rnd 1.0))]
       (rnd 1.0) (rnd 0.25) = Inr (Fin (10 ^ 17))
   \<and> calculate_box_spread_arbitrage 0 (10 ^ 17)
       [quote (PFloat (rnd 1.0)) (PFloat (rnd 1.0)), quote (PFloat (rnd 1.0)) (PFloat (rnd 1.0)),
        quote (PFloat (rnd 1.0)) (PFloat (rnd 1.0)), quote (PFloat (rnd 1.0)) (PFloat (rnd 1.0))]
       (rnd 1.0) (rnd 0.5) = Inr (Fin (10 ^ 17))
   \<and> dlt (Fin 0) (fadd (fmul (rnd 2.0) (rnd 1.0)) (fmul (rnd 1.0) (rnd 1.0)))
   \<and> dlt (rnd (1 / 10 ^ 20)) (rnd (2 / 10 ^ 20))
   \<and> calculate_calendar_spread_arbitrage ''CALL'' 60000
       (quote (PFloat (rnd 2.0)) (PFloat (rnd 2.0))) (quote (PFloat (rnd 1.0)) (PFloat (rnd 1.0)))
       (rnd 1.0) (rnd (1 / 10 ^ 20)) = Inr (Fin 1)
   \<and> calculate_calendar_spread_arbitrage ''CALL'' 60000
       (quote (PFloat (rnd 2.0)) (PFloat (rnd 2.0))) (quote (PFloat (rnd 1.0)) (PFloat (rnd 1.0)))
       (rnd 1.0) (rnd (2 / 10 ^ 20)) = Inr (Fin 1)"
  by (simp add: box_defs calendar_defs float_eval)

text \<open>
  Claim C7, amended. For either pricer, with all prices present and numeric and the
  strikes and the spot rate fixed: when the fee base is strictly positive, the returned
  profit never increases with the fee rate. For \<open>feeRate1 < feeRate2\<close> the comparison
  \<open>profit(feeRate1) < profit(feeRate2)\<close> is false, and
  \<open>profit(feeRate1) >= profit(feeRate2)\<close> holds unless one of the two profits is nan.
  The two profits can be equal. For the box spread the profit is returned when
  \<open>k2 - k1\<close> converts to a float.
\<close>

theorem profit_never_increases_with_fee_rate:
  assumes "price_is l0 ''ask_price'' a0" and "price_is l0 ''bid_price'' b0"
    and "price_is l1 ''ask_price'' a1" and "price_is l1 ''bid_price'' b1"
    and "price_is l2 ''ask_price'' a2" and "price_is l2 ''bid_price'' b2"
    and "price_is l3 ''ask_price'' a3" and "price_is l3 ''bid_price'' b3"
    and "price_is shorter ''bid_price'' bs" and "price_is shorter ''ask_price'' as"
    and "price_is longer ''bid_price'' bl" and "price_is longer ''ask_price'' al"
    and "int_to_double (k2 - k1) = Inr theoretical"
    and "dlt (Fin 0) (fadd (fadd (fadd (fmul a0 s) (fmul b1 s)) (fmul b2 s)) (fmul a3 s))"
    and "dlt (Fin 0) (fadd (fmul bs s) (fmul al s))"
    and "dlt f1 f2"
  shows "(\<exists>p1 p2. calculate_box_spread_arbitrage k1 k2 [l0, l1, l2, l3] s f1 = Inr p1
            \<and> calculate_box_spread_arbitrage k1 k2 [l0, l1, l2, l3] s f2 = Inr p2
            \<and> \<not> dlt p1 p2 \<and> (p1 = NaN \<or> p2 = NaN \<or> dle p2 p1))
       \<and> (\<exists>q1 q2. calculate_calendar_spread_arbitrage option_type strike shorter longer s f1
                     = Inr q1
            \<and> calculate_calendar_spread_arbitrage option_type strike shorter longer s f2
                     = Inr q2
            \<and> \<not> dlt q1 q2 \<and> (q1 = NaN \<or> q2 = NaN \<or> dle q2 q1))"
proof -
  let ?net = "fsub (fadd (fmul a0 s) (fmul a3 s)) (fadd (fmul b1 s) (fmul b2 s))"
  let ?base = "fadd (fadd (fadd (fmul a0 s) (fmul b1 s)) (fmul b2 s)) (fmul a3 s)"
  let ?diff = "fsub (fmul bs s) (fmul al s)"
  let ?cbase = "fadd (fmul bs s) (fmul al s)"
  have nan: "\<not> dlt x y" if "x = NaN \<or> y = NaN \<or> dle y x" for x y
    using that by (cases x; cases y) simp_all
  have box: "calculate_box_spread_arbitrage k1 k2 [l0, l1, l2, l3] s f =
      Inr (fsub (fsub theoretical ?net) (fmul ?base f))" for f
    using box_numeric [OF assms(1-8), of k1 k2 s f] assms(13) by (simp add: bind_err_def)
  have cal: "calculate_calendar_spread_arbitrage option_type strike shorter longer s f =
      Inr (fsub ?diff (fmul ?cbase f))" for f
    using assms(9-12) by (rule calendar_numeric)
  note b = profit_never_increases [OF assms(14,16), of "fsub theoretical ?net"]
  note c = profit_never_increases [OF assms(15,16), of ?diff]
  show ?thesis
    unfolding box cal using b c nan [OF b] nan [OF c] by simp
qed

theorem profit_never_increases_with_fee_rate_witness:
  "(\<exists>p1 p2. calculate_box_spread_arbitrage 60000 61000
        [quote (PFloat (rnd 0.0050)) (PFloat (rnd 0.0049)),
         quote (PFloat (rnd 0.0021)) (PFloat (rnd 0.0020)),
         quote (PFloat (rnd 0.0011)) (PFloat (rnd 0.0010)),
         quote (PFloat (rnd 0.0041)) (PFloat (rnd 0.0040))]
        (rnd 70000.0) (rnd 0.0003) = Inr p1
      \<and> calculate_box_spread_arbitrage 60000 61000
        [quote (PFloat (rnd 0.0050)) (PFloat (rnd 0.0049)),
         quote (PFloat (rnd 0.0021)) (PFloat (rnd 0.0020)),
         quote (PFloat (rnd 0.0011)) (PFloat (rnd 0.0010)),
         quote (PFloat (rnd 0.0041)) (PFloat (rnd 0.0040))]
        (rnd 70000.0) (rnd 0.0005) = Inr p2
      \<and> \<not> dlt p1 p2 \<and> (p1 = NaN \<or> p2 = NaN \<or> dle p2 p1))
   \<and> (\<exists>q1 q2. calculate_calendar_spread_arbitrage ''CALL'' 60000
        (quote (PFloat (rnd 0.0031)) (PFloat (rnd 0.0030)))
        (quote (PFloat (rnd 0.0020)) (PFloat (rnd 0.0019)))
        (rnd 70000.0) (rnd 0.0003) = Inr q1
      \<and> calculate_calendar_spread_arbitrage ''CALL'' 60000
        (quote (PFloat (rnd 0.0031)) (PFloat (rnd 0.0030)))
        (quote (PFloat (rnd 0.0020)) (PFloat (rnd 0.0019)))
        (rnd 70000.0) (rnd 0.0005) = Inr q2
      \<and> \<not> dlt q1 q2 \<and> (q1 = NaN \<or> q2 = NaN \<or> dle q2 q1))"
proof -
  have p: "price_is (quote (PFloat (rnd 0.0050)) (PFloat (rnd 0.0049))) ''ask_price'' (rnd 0.0050)"
      "price_is (quote (PFloat (rnd 0.0050)) (PFloat (rnd 0.0049))) ''bid_price'' (rnd 0.0049)"
      "price_is (quote (PFloat (rnd 0.0021)) (PFloat (rnd 0.0020))) ''ask_price'' (rnd 0.0021)"
      "price_is (quote (PFloat (rnd 0.0021)) (PFloat (rnd 0.0020))) ''bid_price'' (rnd 0.0020)"
      "price_is (quote (PFloat (rnd 0.0011)) (PFloat (rnd 0.0010))) ''ask_price'' (rnd 0.0011)"
      "price_is (quote (PFloat (rnd 0.0011)) (PFloat (rnd 0.0010))) ''bid_price'' (rnd 0.0010)"
      "price_is (quote (PFloat (rnd 0.0041)) (PFloat (rnd 0.0040))) ''ask_price'' (rnd 0.0041)"
      "price_is (quote (PFloat (rnd 0.0041)) (PFloat (rnd 0.0040))) ''bid_price'' (rnd 0.0040)"
      "price_is (quote (PFloat (rnd 0.0031)) (PFloat (rnd 0.0030))) ''bid_price'' (rnd 0.0030)"
      "price_is (quote (PFloat (rnd 0.0031)) (PFloat (rnd 0.0030))) ''ask_price'' (rnd 0.0031)"
      "price_is (quote (PFloat (rnd 0.0020)) (PFloat (rnd 0.0019))) ''bid_price'' (rnd 0.0019)"
      "price_is (quote (PFloat (rnd 0.0020)) (PFloat (rnd 0.0019))) ''ask_price'' (rnd 0.0020)"
    by simp_all
  have conv: "int_to_double (61000 - 60000) = Inr (Fin 1000)"
    by (simp add: int_to_double_def float_eval)
  have base: "dlt (Fin 0)
      (fadd (fadd (fadd (fmul (rnd 0.0050) (rnd 70000.0)) (fmul (rnd 0.0020) (rnd 70000.0)))
                  (fmul (rnd 0.0010) (rnd 70000.0))) (fmul (rnd 0.0041) (rnd 70000.0)))"
    by (simp add: float_eval)
  have cbase: "dlt (Fin 0) (fadd (fmul (rnd 0.0030) (rnd 70000.0)) (fmul (rnd 0.0020) (rnd 70000.0)))"
    by (simp add: float_eval)
  have rates: "dlt (rnd 0.0003) (rnd 0.0005)"
    by (simp add: float_eval)
  show ?thesis
    by (rule profit_never_increases_with_fee_rate [OF p conv base cbase rates])
qed

text \<open>
  Claim C8. Two calendar-spread calls that differ only in the option type and the strike
  return the same value: neither argument is read.
\<close>

theorem calendar_spread_ignores_type_and_strike:
  "calculate_calendar_spread_arbitrage option_type1 strike1 shorter longer s f =
   calculate_calendar_spread_arbitrage option_type2 strike2 shorter longer s f"
  by (simp add: calculate_calendar_spread_arbitrage_def)

section \<open>Leg lists that do not have four entries\<close>

text \<open>
  Claim C9, as the spec states it: every call with fewer than four legs fails with an
  index error. It does not hold when one of the legs lacks a price: the guard runs over
  the legs that are there and returns negative infinity before any index is used.
\<close>

theorem box_spread_short_list_counterexample:
  "length [quote (PFloat (rnd 0.0050)) PNone] < 4
   \<and> calculate_box_spread_arbitrage 60000 61000 [quote (PFloat (rnd 0.0050)) PNone]
       (rnd 70000.0) (rnd 0.0003) = Inr NegInf"
  by (simp add: calculate_box_spread_arbitrage_def price_missing_def)

text \<open>
  Claim C9, amended. A call with fewer than four legs, each of them holding numbers
  under \<open>ask_price\<close> and \<open>bid_price\<close> (floats, or ints in the range of a double),
  returns no value: the length is not checked, and reading the first leg that is not
  there raises \<open>IndexError\<close>.
\<close>

theorem box_spread_short_list_index_error:
  assumes "length leg_data < 4"
    and "\<forall>leg \<in> set leg_data. numeric_leg leg"
  shows "calculate_box_spread_arbitrage k1 k2 leg_data s f = Inl IndexError"
proof -
  have g: "guard_loop leg_data = None"
    using assms(2) by (intro guard_loop_complete) (simp add: numeric_leg_complete)
  have l3: "leg_price_usd leg_data 3 ''ask_price'' s = Inl IndexError"
    using assms(1) by (simp add: leg_price_usd_out_of_range)
  have n0: "leg_price_usd leg_data 0 ''ask_price'' s = Inl IndexError
       \<or> (\<exists>x. leg_price_usd leg_data 0 ''ask_price'' s = Inr x)"
    using assms(2) by (simp add: leg_price_usd_numeric)
  have n1: "leg_price_usd leg_data 1 ''bid_price'' s = Inl IndexError
       \<or> (\<exists>x. leg_price_usd leg_data 1 ''bid_price'' s = Inr x)"
    using assms(2) by (simp add: leg_price_usd_numeric)
  have n2: "leg_price_usd leg_data 2 ''bid_price'' s = Inl IndexError
       \<or> (\<exists>x. leg_price_usd leg_data 2 ''bid_price'' s = Inr x)"
    using assms(2) by (simp add: leg_price_usd_numeric)
  show ?thesis
    using n0 n1 n2 by (auto simp add: calculate_box_spread_arbitrage_def g l3 bind_err_def)
qed

theorem box_spread_short_list_index_error_witness:
  "length [quote (PFloat (rnd 0.0050)) (PFloat (rnd 0.0049)),
           quote (PInt 1) (PFloat (rnd 0.0020)),
           quote (PFloat (rnd 0.0011)) (PFloat (rnd 0.0010))] < 4
   \<and> calculate_box_spread_arbitrage 60000 61000
        [quote (PFloat (rnd 0.0050)) (PFloat (rnd 0.0049)),
         quote (PInt 1) (PFloat (rnd 0.0020)),
         quote (PFloat (rnd 0.0011)) (PFloat (rnd 0.0010))]
        (rnd 70000.0) (rnd 0.0003) = Inl IndexError"
proof -
  let ?legs = "[quote (PFloat (rnd 0.0050)) (PFloat (rnd 0.0049)),
         quote (PInt 1) (PFloat (rnd 0.0020)),
         quote (PFloat (rnd 0.0011)) (PFloat (rnd 0.0010))]"
  have len: "length ?legs < 4" by simp
  have one: "int_to_double 1 = Inr (Fin 1)"
    by (simp add: int_to_double_def float_eval)
  have num: "\<forall>leg \<in> set ?legs. numeric_leg leg"
    by (simp add: numeric_leg_def is_number_def one)
  show ?thesis
    using len box_spread_short_list_index_error [OF len num] by simp
qed

text \<open>
  Claim C10. The guard of the box spread runs over every entry of the list, whatever its
  length: (i) a list that contains an entry lacking \<open>ask_price\<close> or \<open>bid_price\<close>
  gives negative infinity and raises nothing, also when it has fewer than four entries;
  (ii) behind four legs, entries that hold both prices do not change the result,
  whatever their values.
\<close>

theorem box_spread_guard_covers_all_entries:
  "((\<exists>leg \<in> set leg_data. price_missing leg) \<longrightarrow>
      calculate_box_spread_arbitrage k1 k2 leg_data s f = Inr NegInf)
   \<and> (length first = 4 \<and> (\<forall>leg \<in> set extra. \<not> price_missing leg)
        \<and> (\<forall>leg \<in> set extra'. \<not> price_missing leg) \<longrightarrow>
      calculate_box_spread_arbitrage k1 k2 (first @ extra) s f =
      calculate_box_spread_arbitrage k1 k2 (first @ extra') s f)"
  by (simp add: box_missing box_extra)

theorem box_spread_guard_covers_all_entries_witness:
  "calculate_box_spread_arbitrage 60000 61000
      [quote (PFloat (rnd 0.0050)) (PFloat (rnd 0.0049)), Map.empty]
      (rnd 70000.0) (rnd 0.0003) = Inr NegInf
   \<and> calculate_box_spread_arbitrage 60000 61000
      ([quote (PFloat (rnd 0.0050)) (PFloat (rnd 0.0049)),
        quote (PFloat (rnd 0.0021)) (PFloat (rnd 0.0020)),
        quote (PFloat (rnd 0.0011)) (PFloat (rnd 0.0010)),
        quote (PFloat (rnd 0.0041)) (PFloat (rnd 0.0040))]
       @ [quote (PFloat (rnd 9.0)) (PFloat (rnd 8.0))]) (rnd 70000.0) (rnd 0.0003) =
     calculate_box_spread_arbitrage 60000 61000
      ([quote (PFloat (rnd 0.0050)) (PFloat (rnd 0.0049)),
        quote (PFloat (rnd 0.0021)) (PFloat (rnd 0.0020)),
        quote (PFloat (rnd 0.0011)) (PFloat (rnd 0.0010)),
        quote (PFloat (rnd 0.0041)) (PFloat (rnd 0.0040))]
       @ [quote (PStr ''*'') (PFloat (rnd 1.0)), quote (PInt 2) (PInt 3)])
      (rnd 70000.0) (rnd 0.0003)"
  using box_spread_guard_covers_all_entries
    [of "[quote (PFloat (rnd 0.0050)) (PFloat (rnd 0.0049)), Map.empty]"
        60000 61000 "rnd 70000.0" "rnd 0.0003"
        "[quote (PFloat (rnd 0.0050)) (PFloat (rnd 0.0049)),
          quote (PFloat (rnd 0.0021)) (PFloat (rnd 0.0020)),
          quote (PFloat (rnd 0.0011)) (PFloat (rnd 0.0010)),
          quote (PFloat (rnd 0.0041)) (PFloat (rnd 0.0040))]"
        "[quote (PFloat (rnd 9.0)) (PFloat (rnd 8.0))]"
        "[quote (PStr ''*'') (PFloat (rnd 1.0)), quote (PInt 2) (PInt 3)]"]
  by (simp add: price_missing_def dict_get_def quote_def)

end
